theory Spec2Isabelle
  imports Main "HOL-Library.Word" "HOL-Library.Sublist"
begin

unbundle bit_operations_syntax

section \<open>blart: a file-watching supervisor of one child process\<close>

text \<open>
  The program (\<^verbatim>\<open>main.go\<close>) starts a child process, watches files, and signals the
  child after a change; it relays the signals it receives to the child and, on a
  termination signal, runs a shutdown sequence. It is a concurrent Go program of five
  goroutines around one child process:
  \<^item> \<^verbatim>\<open>main\<close>, which after the startup checks blocks on \<^verbatim>\<open><-done\<close> and returns;
  \<^item> the waiter (lines 120-123): \<^verbatim>\<open>cmd.Wait(); done <- struct{}{}\<close>;
  \<^item> the aggregator (lines 125-149), which reads the watcher's events and errors;
  \<^item> the dispatcher started by \<^verbatim>\<open>signalDebounce\<close> (lines 41-56);
  \<^item> the controller (lines 154-186), which reads the signal channel \<^verbatim>\<open>c\<close>.

  The startup is sequential and is modelled as a function. The goroutines are modelled
  as one transition system: a state holds every goroutine's position, an event is one
  step of one goroutine or of the environment (the clock, the operating system's
  signals, the watcher, the child), and \<open>step\<close> returns \<open>None\<close> for an event that is
  not enabled. The choice between enabled events is the scheduler's. A value sent on
  the channel \<^verbatim>\<open>done\<close> goes to the goroutine that has waited on it longest: the
  receivers' queue is part of the state. Theorems about every execution quantify over
  all event lists.
\<close>

subsection \<open>Signals and the signal table\<close>

text \<open>
  \<^verbatim>\<open>os.Signal\<close> values. The named ones are the values of the table \<^verbatim>\<open>signals\<close>;
  \<open>SIGOTHER n\<close> stands for any other signal number, which \<^verbatim>\<open>signal.Notify(c)\<close>
  (called with no signal list) relays too.
\<close>

datatype signal =
    SIGABRT | SIGALRM | SIGBUS | SIGFPE | SIGHUP | SIGILL | SIGINT | SIGKILL
  | SIGPIPE | SIGQUIT | SIGSEGV | SIGTERM | SIGTRAP | SIGOTHER nat

text \<open>\<^verbatim>\<open>os.Interrupt = syscall.SIGINT\<close> and \<^verbatim>\<open>os.Kill = syscall.SIGKILL\<close> (package os).\<close>

definition os_Interrupt :: signal where
  "os_Interrupt = SIGINT"

definition os_Kill :: signal where
  "os_Kill = SIGKILL"

text \<open>
  The table \<^verbatim>\<open>var signals = map[string]os.Signal{...}\<close>. \<^verbatim>\<open>main.go\<close> does not declare
  it; the package's file that does (the one with nothing but the table) has these
  thirteen entries.
\<close>

definition signals :: "(string \<times> signal) list" where
  "signals =
    [(''ABRT'', SIGABRT), (''ALRM'', SIGALRM), (''BUS'', SIGBUS), (''FPE'', SIGFPE),
     (''HUP'', SIGHUP), (''ILL'', SIGILL), (''INT'', SIGINT), (''KILL'', SIGKILL),
     (''PIPE'', SIGPIPE), (''QUIT'', SIGQUIT), (''SEGV'', SIGSEGV), (''TERM'', SIGTERM),
     (''TRAP'', SIGTRAP)]"

text \<open>
  \<^verbatim>\<open>signalByName\<close> (lines 28-34): the look-up of the upper-cased name; the error is
  \<^verbatim>\<open>"unknown signal: " + name\<close>, with the name as given. \<^verbatim>\<open>strings.ToUpper\<close> is a
  function of Go's library, which maps Unicode letters and is not part of this program:
  the model takes it as the parameter \<open>ToUpper\<close>, and what is proved holds for every
  function in its place.
\<close>

definition signalByName :: "(string \<Rightarrow> string) \<Rightarrow> string \<Rightarrow> string + signal" where
  "signalByName ToUpper name =
    (case map_of signals (ToUpper name) of
       Some sg \<Rightarrow> Inr sg
     | None \<Rightarrow> Inl (''unknown signal: '' @ name))"

text \<open>
  For the examples: \<open>ToUpper_ascii\<close> maps the letters a-z to A-Z and keeps every other
  character, as \<^verbatim>\<open>strings.ToUpper\<close> does on a string of ASCII characters.
\<close>

definition ToUpper_ascii :: "string \<Rightarrow> string" where
  "ToUpper_ascii s =
    map (\<lambda>c. case map_of (zip ''abcdefghijklmnopqrstuvwxyz'' ''ABCDEFGHIJKLMNOPQRSTUVWXYZ'') c of
               Some u \<Rightarrow> u
             | None \<Rightarrow> c) s"

subsection \<open>Startup (main, lines 79-117)\<close>

text \<open>
  The flags as \<^verbatim>\<open>flag.Parse\<close> left them, and the results of the three calls into the
  environment: \<^verbatim>\<open>fsnotify.NewWatcher()\<close>, \<^verbatim>\<open>watcher.Add(file)\<close> and \<^verbatim>\<open>cmd.Start()\<close>,
  each an error message or \<open>None\<close> for success.
\<close>

record flags =
  sigFlag :: string
  filesFlag :: string
  delayFlag :: int
  Args :: "string list"

record os_env =
  NewWatcher :: "string option"
  watcher_Add :: "string \<Rightarrow> string option"
  cmd_Start :: "string option"

text \<open>What the startup prints, line by line.\<close>

datatype outp =
    Stdout string
  | Stderr string
  | PrintDefaults
  | VersionLine

text \<open>\<^verbatim>\<open>usage\<close> (lines 69-72) and \<^verbatim>\<open>usageAndExit\<close> (lines 61-67), which ends in \<^verbatim>\<open>os.Exit(1)\<close>.\<close>

definition usage :: "outp list" where
  "usage = [Stderr ''usage: blart [flags] [command]'', PrintDefaults]"

definition usageAndExit :: "string \<Rightarrow> outp list \<times> int" where
  "usageAndExit s = ([Stdout (''!! '' @ s)] @ usage @ [Stdout [], VersionLine], 1)"

text \<open>\<^verbatim>\<open>strings.Split(s, ":")\<close>: n separators give n + 1 fields.\<close>

fun Split :: "string \<Rightarrow> char \<Rightarrow> string list" where
  "Split [] d = [[]]"
| "Split (c # cs) d =
    (if c = d then [] # Split cs d
     else (case Split cs d of
             [] \<Rightarrow> [[c]]
           | w # ws \<Rightarrow> (c # w) # ws))"

text \<open>
  The loop of lines 100-107: the paths are added in order, and the first error ends
  the program.
\<close>

fun add_watches :: "(string \<Rightarrow> string option) \<Rightarrow> string list \<Rightarrow> string option" where
  "add_watches add [] = None"
| "add_watches add (f # fs) =
    (case add f of
       Some err \<Rightarrow> Some err
     | None \<Rightarrow> add_watches add fs)"

text \<open>
  What the runtime is started with: the signal to send on a change, the delay, and
  the line printed on line 117.
\<close>

record started =
  st_sig :: signal
  st_delay :: int
  st_out :: "outp list"

fun Join :: "string list \<Rightarrow> string \<Rightarrow> string" where
  "Join [] sep = []"
| "Join [a] sep = a"
| "Join (a # b # bs) sep = a @ sep @ Join (b # bs) sep"

text \<open>
  \<open>main_startup\<close> is \<^verbatim>\<open>main\<close> up to line 117: \<open>Inl (out, status)\<close> when the program
  exited in \<^verbatim>\<open>usageAndExit\<close>, \<open>Inr\<close> when the child was started and the goroutines
  are about to be. The checks are in the source's order.
\<close>

definition main_startup ::
  "(string \<Rightarrow> string) \<Rightarrow> flags \<Rightarrow> os_env \<Rightarrow> (outp list \<times> int) + started" where
  "main_startup ToUpper fl env =
    (case signalByName ToUpper (sigFlag fl) of
       Inl err \<Rightarrow> Inl (usageAndExit err)
     | Inr sg \<Rightarrow>
        (case NewWatcher env of
           Some err \<Rightarrow> Inl (usageAndExit err)
         | None \<Rightarrow>
            if filesFlag fl = [] then Inl (usageAndExit ''no files to watch'')
            else if Args fl = [] then Inl (usageAndExit ''no command specified'')
            else
              (case add_watches (watcher_Add env) (Split (filesFlag fl) CHR '':'') of
                 Some err \<Rightarrow> Inl (usageAndExit err)
               | None \<Rightarrow>
                  (case cmd_Start env of
                     Some err \<Rightarrow> Inl (usageAndExit err)
                   | None \<Rightarrow>
                      Inr \<lparr>st_sig = sg, st_delay = delayFlag fl,
                           st_out = [Stdout (''==> starting child '' @ Join (Args fl) '' '')]\<rparr>))))"

subsection \<open>The runtime: goroutines as a transition system\<close>

text \<open>
  Durations are \<^verbatim>\<open>time.Duration\<close> values: integers, in nanoseconds. The clock
  \<open>now\<close> counts the same unit.
\<close>

definition Second :: int where
  "Second = 1000000000"

definition countdown :: int where
  "countdown = 5 * Second"

text \<open>\<^verbatim>\<open>fsnotify.Rename\<close>, the fourth bit of an event's \<^verbatim>\<open>Op\<close> (a \<^verbatim>\<open>uint32\<close>).\<close>

definition Rename :: "32 word" where
  "Rename = 8"

text \<open>
  What the program does that can be seen from outside, in the order it does it. The
  three calls of \<^verbatim>\<open>Process.Signal\<close> are kept apart by their place in the source:
  \<open>Forward\<close> is line 158, \<open>ForceKill\<close> is line 174 (\<^verbatim>\<open>cmd.Process.Signal(os.Kill)\<close>)
  and \<open>DebounceSignal\<close> is line 53. What is recorded is the call, whether or not the
  child still runs (the source ignores the error that \<^verbatim>\<open>Signal\<close> returns).
  \<open>TimeAfter d\<close> is a timer started by \<^verbatim>\<open>time.After(d)\<close>.
\<close>

datatype action =
    Forward signal
  | ForceKill
  | DebounceSignal signal
  | Println string
  | LogPrintln string
  | Broadcast
  | WatcherRemove string
  | WatcherAdd string
  | WatcherClose
  | TimeAfter int

text \<open>The signal a call of \<^verbatim>\<open>Process.Signal\<close> passes to the child.\<close>

fun child_signal :: "action \<Rightarrow> signal option" where
  "child_signal (Forward sg) = Some sg"
| "child_signal ForceKill = Some os_Kill"
| "child_signal (DebounceSignal sg) = Some sg"
| "child_signal _ = None"

text \<open>
  The controller is at \<^verbatim>\<open>sig = <-c\<close> (\<open>Running\<close>), in the first \<^verbatim>\<open>select\<close> with its
  timer due at the given time (\<open>Draining\<close>), or in the second (\<open>ForceKilling\<close>).
  The waiter is in \<^verbatim>\<open>cmd.Wait()\<close>, in \<^verbatim>\<open>done <- struct{}{}\<close>, or finished.
  \<^verbatim>\<open>main\<close> is blocked in \<^verbatim>\<open><-done\<close> (line 188), has received and is about to run the
  deferred \<^verbatim>\<open>watcher.Close()\<close>, or has run it and is about to return.
  The dispatcher is about to call \<^verbatim>\<open>cond.Wait()\<close>, blocked in it, woken by a
  broadcast and about to call \<^verbatim>\<open>time.Sleep\<close>, or asleep until the given time.
\<close>

datatype ctl_pc = Running | Draining int | ForceKilling int

datatype waiter_pc = ChildRunning | SendingDone | WaiterDone

datatype main_pc = MainParked | MainReceived | MainClosed

text \<open>
  The goroutines that can wait on \<^verbatim>\<open>done\<close>: \<^verbatim>\<open>main\<close> in line 188 and the controller in the
  \<^verbatim>\<open>select\<close> of line 167 or line 176.
\<close>

datatype receiver = RMain | RCtl

datatype disp_pc = DispLoop | DispWaiting | DispWoken | DispSleeping int

text \<open>
  The arguments of \<^verbatim>\<open>signalDebounce(process, sig, delay)\<close>; \<open>process = None\<close> is the
  nil pointer. \<^verbatim>\<open>main\<close> passes \<^verbatim>\<open>cmd.Process\<close>, which is not nil after a successful
  \<^verbatim>\<open>cmd.Start()\<close>.
\<close>

record config =
  process :: "nat option"
  sig :: signal
  delay :: int

record state =
  now :: int
  c_buf :: "signal option"
  ctl :: ctl_pc
  waiter :: waiter_pc
  done_recvq :: "receiver list"
  main_at :: main_pc
  disp :: disp_pc
  acts :: "(int \<times> action) list"
  exited :: "int option"

datatype event =
    Tick int
  | Deliver signal
  | CtlReceive
  | CtlDone
  | CtlTimeout
  | ChildExit
  | MainDone
  | MainClose
  | MainReturn
  | FsEvent string "32 word"
  | FsError string
  | DispWait
  | DispSleep
  | DispFire

text \<open>
  The state when line 188 is reached. \<^verbatim>\<open>main\<close> starts the controller in line 154 and
  blocks in \<^verbatim>\<open><-done\<close> next; the controller waits on \<^verbatim>\<open>done\<close> only after it has received
  a signal, forwarded it and printed two lines. So \<^verbatim>\<open>main\<close> is the first in the queue of
  receivers of \<^verbatim>\<open>done\<close>.
\<close>

definition init :: state where
  "init = \<lparr>now = 0, c_buf = None, ctl = Running, waiter = ChildRunning,
           done_recvq = [RMain], main_at = MainParked, disp = DispLoop,
           acts = [], exited = None\<rparr>"

text \<open>The actions are recorded with the time at which they happen.\<close>

definition emit :: "state \<Rightarrow> action list \<Rightarrow> state" where
  "emit s as = s\<lparr>acts := acts s @ map (Pair (now s)) as\<rparr>"

text \<open>The case list of line 160.\<close>

definition termination_class :: "signal \<Rightarrow> bool" where
  "termination_class sg = (sg = os_Interrupt \<or> sg = os_Kill \<or> sg = SIGTERM)"

text \<open>
  Lines 161-170: the two lines printed, and the first \<^verbatim>\<open>select\<close> entered, where the
  controller joins the receivers of \<^verbatim>\<open>done\<close>.
\<close>

definition begin_shutdown :: "state \<Rightarrow> state" where
  "begin_shutdown s =
    (emit s [Println ''==> attempting to shut down cleanly'',
             Println ''==> waiting up to 5s for child to exit'',
             TimeAfter countdown])
      \<lparr>ctl := Draining (now s + countdown), done_recvq := done_recvq s @ [RCtl]\<rparr>"

text \<open>
  Lines 172-179, run when the first \<^verbatim>\<open>select\<close> returns, by either of its cases: the
  body of both cases is empty, and the statements after the \<^verbatim>\<open>select\<close> follow. A
  \<^verbatim>\<open>select\<close> that returns leaves the queue of \<^verbatim>\<open>done\<close>; the second \<^verbatim>\<open>select\<close> joins it
  again, at its end.
\<close>

definition force_kill :: "state \<Rightarrow> state" where
  "force_kill s =
    (emit s [Println ''==> attempting to now kill child'', ForceKill, TimeAfter Second])
      \<lparr>ctl := ForceKilling (now s + Second),
       done_recvq := removeAll RCtl (done_recvq s) @ [RCtl]\<rparr>"

text \<open>Lines 181-183, run when the second \<^verbatim>\<open>select\<close> returns: \<^verbatim>\<open>os.Exit(1)\<close>.\<close>

definition suicide :: "state \<Rightarrow> state" where
  "suicide s =
    (emit s [Println ''==> now committing suicide''])
      \<lparr>done_recvq := removeAll RCtl (done_recvq s), exited := Some 1\<rparr>"

text \<open>
  \<^verbatim>\<open>cond.Broadcast()\<close> wakes the goroutines blocked in \<^verbatim>\<open>cond.Wait()\<close> at that moment
  and has no effect otherwise: a condition variable keeps no memory of a broadcast.
\<close>

definition broadcast :: "state \<Rightarrow> state" where
  "broadcast s =
    (emit s [Broadcast])\<lparr>disp := (if disp s = DispWaiting then DispWoken else disp s)\<rparr>"

text \<open>Lines 134-144: what the aggregator does with one event of \<^verbatim>\<open>watcher.Events\<close>.\<close>

definition on_event :: "state \<Rightarrow> string \<Rightarrow> 32 word \<Rightarrow> state" where
  "on_event s name op =
    (let s1 = broadcast (emit s [LogPrintln (''==> detected change in '' @ name)])
     in if op AND Rename = Rename then emit s1 [WatcherRemove name, WatcherAdd name]
        else s1)"

text \<open>Lines 51-54: the dispatcher's fire point, after its sleep.\<close>

definition fire :: "config \<Rightarrow> state \<Rightarrow> state" where
  "fire cfg s =
    (case process cfg of
       None \<Rightarrow> s
     | Some p \<Rightarrow> emit s [LogPrintln ''==> signalling child'', DebounceSignal (sig cfg)])"

text \<open>The first receiver waiting on a channel.\<close>

definition hd_is :: "receiver \<Rightarrow> receiver list \<Rightarrow> bool" where
  "hd_is r q = (case q of [] \<Rightarrow> False | x # _ \<Rightarrow> x = r)"

text \<open>
  One step of the running program.
  \<^item> \<open>Tick d\<close>: the clock advances by \<open>d\<close>, which is not negative.
  \<^item> \<open>Deliver sg\<close>: the process receives \<open>sg\<close>; package signal sends it to \<^verbatim>\<open>c\<close>
    without blocking, so it is dropped when the one slot of \<^verbatim>\<open>c\<close> is taken.
  \<^item> \<open>CtlReceive\<close>: lines 157-165, \<^verbatim>\<open>sig = <-c\<close>, the forward and the \<^verbatim>\<open>switch\<close>.
  \<^item> \<open>CtlTimeout\<close>: the controller's current \<^verbatim>\<open>select\<close> takes the case of its timer,
    once that is due.
  \<^item> \<open>ChildExit\<close>: the child exits and \<^verbatim>\<open>cmd.Wait()\<close> returns; the waiter is at its send.
  \<^item> \<open>MainDone\<close>, \<open>CtlDone\<close>: the waiter's value is handed to the first receiver in the
    queue of \<^verbatim>\<open>done\<close>: to \<^verbatim>\<open>main\<close> in line 188, or to the controller's current \<^verbatim>\<open>select\<close>,
    which takes \<^verbatim>\<open>case <-done\<close>.
  \<^item> \<open>MainClose\<close>: \<^verbatim>\<open>main\<close>, which has received, runs the deferred \<^verbatim>\<open>watcher.Close()\<close>.
  \<^item> \<open>MainReturn\<close>: \<^verbatim>\<open>main\<close> returns and the program exits with status 0. Until then the
    other goroutines run on.
  \<^item> \<open>FsEvent\<close>, \<open>FsError\<close>: the aggregator receives an event or an error (of a closed
    watcher too: an event with an empty name and \<^verbatim>\<open>Op\<close> 0).
  \<^item> \<open>DispWait\<close>, \<open>DispSleep\<close>, \<open>DispFire\<close>: the dispatcher calls \<^verbatim>\<open>cond.Wait()\<close>,
    calls \<^verbatim>\<open>time.Sleep(delay)\<close> after it was woken, and runs lines 51-54 once the sleep
    is over.
\<close>

fun live_step :: "config \<Rightarrow> state \<Rightarrow> event \<Rightarrow> state option" where
  "live_step cfg s (Tick d) = (if 0 \<le> d then Some (s\<lparr>now := now s + d\<rparr>) else None)"
| "live_step cfg s (Deliver sg) =
    (case c_buf s of
       None \<Rightarrow> Some (s\<lparr>c_buf := Some sg\<rparr>)
     | Some _ \<Rightarrow> Some s)"
| "live_step cfg s CtlReceive =
    (case ctl s of
       Running \<Rightarrow>
        (case c_buf s of
           None \<Rightarrow> None
         | Some sg \<Rightarrow>
            (let s1 = emit (s\<lparr>c_buf := None\<rparr>) [Forward sg]
             in if termination_class sg then Some (begin_shutdown s1) else Some s1))
     | _ \<Rightarrow> None)"
| "live_step cfg s CtlDone =
    (if waiter s = SendingDone \<and> hd_is RCtl (done_recvq s) then
       (case ctl s of
          Running \<Rightarrow> None
        | Draining dl \<Rightarrow> Some (force_kill (s\<lparr>waiter := WaiterDone\<rparr>))
        | ForceKilling dl \<Rightarrow> Some (suicide (s\<lparr>waiter := WaiterDone\<rparr>)))
     else None)"
| "live_step cfg s CtlTimeout =
    (case ctl s of
       Running \<Rightarrow> None
     | Draining dl \<Rightarrow> if dl \<le> now s then Some (force_kill s) else None
     | ForceKilling dl \<Rightarrow> if dl \<le> now s then Some (suicide s) else None)"
| "live_step cfg s ChildExit =
    (if waiter s = ChildRunning then Some (s\<lparr>waiter := SendingDone\<rparr>) else None)"
| "live_step cfg s MainDone =
    (if waiter s = SendingDone \<and> hd_is RMain (done_recvq s) \<and> main_at s = MainParked
     then Some (s\<lparr>waiter := WaiterDone, done_recvq := tl (done_recvq s),
                   main_at := MainReceived\<rparr>)
     else None)"
| "live_step cfg s MainClose =
    (if main_at s = MainReceived
     then Some ((emit s [WatcherClose])\<lparr>main_at := MainClosed\<rparr>)
     else None)"
| "live_step cfg s MainReturn =
    (if main_at s = MainClosed then Some (s\<lparr>exited := Some 0\<rparr>) else None)"
| "live_step cfg s (FsEvent name op) = Some (on_event s name op)"
| "live_step cfg s (FsError err) = Some (emit s [LogPrintln (''==> error: '' @ err)])"
| "live_step cfg s DispWait =
    (if disp s = DispLoop then Some (s\<lparr>disp := DispWaiting\<rparr>) else None)"
| "live_step cfg s DispSleep =
    (if disp s = DispWoken then Some (s\<lparr>disp := DispSleeping (now s + delay cfg)\<rparr>)
     else None)"
| "live_step cfg s DispFire =
    (case disp s of
       DispSleeping until \<Rightarrow>
        if until \<le> now s then Some ((fire cfg s)\<lparr>disp := DispLoop\<rparr>) else None
     | _ \<Rightarrow> None)"

text \<open>Once the program has exited, nothing of it runs.\<close>

definition step :: "config \<Rightarrow> state \<Rightarrow> event \<Rightarrow> state option" where
  "step cfg s e = (if exited s = None then live_step cfg s e else None)"

fun run :: "config \<Rightarrow> state \<Rightarrow> event list \<Rightarrow> state option" where
  "run cfg s [] = Some s"
| "run cfg s (e # es) =
    (case step cfg s e of
       None \<Rightarrow> None
     | Some s' \<Rightarrow> run cfg s' es)"

text \<open>What is read off a state: the actions in order, and counts of them.\<close>

definition actions :: "state \<Rightarrow> action list" where
  "actions s = map snd (acts s)"

definition forwarded :: "state \<Rightarrow> signal list" where
  "forwarded s = concat (map (\<lambda>a. case a of Forward sg \<Rightarrow> [sg] | _ \<Rightarrow> []) (actions s))"

definition delivered :: "event list \<Rightarrow> signal list" where
  "delivered es = concat (map (\<lambda>e. case e of Deliver sg \<Rightarrow> [sg] | _ \<Rightarrow> []) es)"

definition force_kills :: "state \<Rightarrow> nat" where
  "force_kills s = count_list (actions s) ForceKill"

definition graceful_timers :: "state \<Rightarrow> nat" where
  "graceful_timers s = count_list (actions s) (TimeAfter countdown)"

definition debounce_signals :: "state \<Rightarrow> (int \<times> signal) list" where
  "debounce_signals s =
    concat (map (\<lambda>(t, a). case a of DebounceSignal sg \<Rightarrow> [(t, sg)] | _ \<Rightarrow> []) (acts s))"

definition broadcasts :: "state \<Rightarrow> nat" where
  "broadcasts s = count_list (actions s) Broadcast"

definition is_FsEvent :: "event \<Rightarrow> bool" where
  "is_FsEvent e = (case e of FsEvent name op \<Rightarrow> True | _ \<Rightarrow> False)"

text \<open>The signal waiting in the channel \<^verbatim>\<open>c\<close>, as a list.\<close>

definition buffered :: "state \<Rightarrow> signal list" where
  "buffered s = (case c_buf s of None \<Rightarrow> [] | Some sg \<Rightarrow> [sg])"

definition forced_timers :: "state \<Rightarrow> nat" where
  "forced_timers s = count_list (actions s) (TimeAfter Second)"

text \<open>
  A configuration for the examples: the flags' defaults (\<^verbatim>\<open>-s HUP\<close>, \<^verbatim>\<open>-d 3s\<close>) and a
  started child.
\<close>

definition example_cfg :: config where
  "example_cfg = \<lparr>process = Some 4242, sig = SIGHUP, delay = 3 * Second\<rparr>"

text \<open>
  The invariant of the shutdown sequence: the controller's position determines how
  many timers were started and how many forced kills were sent.
\<close>

definition shutdown_inv :: "state \<Rightarrow> bool" where
  "shutdown_inv s =
    (case ctl s of
       Running \<Rightarrow> graceful_timers s = 0 \<and> forced_timers s = 0 \<and> force_kills s = 0
     | Draining dl \<Rightarrow> graceful_timers s = 1 \<and> forced_timers s = 0 \<and> force_kills s = 0
     | ForceKilling dl \<Rightarrow> graceful_timers s = 1 \<and> forced_timers s = 1 \<and> force_kills s = 1)"

text \<open>
  The dispatcher's cycle, read off the events of an execution: \<open>notified_since_wait es\<close>
  says that in \<open>es\<close> the dispatcher has called \<^verbatim>\<open>cond.Wait()\<close> and that the aggregator
  has broadcast since the last such call. \<open>pending\<close> counts the cycle that a broadcast
  has started and that has not reached its fire point yet.
\<close>

definition notified_since_wait :: "event list \<Rightarrow> bool" where
  "notified_since_wait es =
    (DispWait \<in> set es \<and> list_ex is_FsEvent (takeWhile (\<lambda>e. e \<noteq> DispWait) (rev es)))"

definition pending :: "state \<Rightarrow> nat" where
  "pending s = (case disp s of DispLoop \<Rightarrow> 0 | DispWaiting \<Rightarrow> 0 | _ \<Rightarrow> 1)"

definition disp_inv :: "event list \<Rightarrow> state \<Rightarrow> bool" where
  "disp_inv es s =
    (case disp s of
       DispLoop \<Rightarrow> True
     | DispWaiting \<Rightarrow> DispWait \<in> set es
     | _ \<Rightarrow> notified_since_wait es)"

text \<open>\<^verbatim>\<open>time.Millisecond\<close>, for the examples.\<close>

definition Millisecond :: int where
  "Millisecond = 1000000"

text \<open>The times of the calls of \<^verbatim>\<open>cond.Broadcast()\<close>.\<close>

definition broadcast_times :: "state \<Rightarrow> int list" where
  "broadcast_times s = map fst (filter (\<lambda>(t, a). a = Broadcast) (acts s))"

text \<open>
  The two phases of one cycle of the dispatcher after the broadcast that woke it at time
  \<open>t0\<close>: woken and not yet asleep, and asleep until \<open>due\<close>; in both the signals sent
  are still \<open>ds\<close>.
\<close>

definition woken_inv :: "int \<Rightarrow> (int \<times> signal) list \<Rightarrow> state \<Rightarrow> bool" where
  "woken_inv t0 ds s = (disp s = DispWoken \<and> t0 \<le> now s \<and> debounce_signals s = ds)"

definition asleep_inv :: "int \<Rightarrow> (int \<times> signal) list \<Rightarrow> state \<Rightarrow> bool" where
  "asleep_inv due ds s = (disp s = DispSleeping due \<and> debounce_signals s = ds)"


text \<open>
  The startup failures: the signal name is unknown, the watcher cannot be created, no
  paths or no command are given, a path cannot be added, or the child cannot be started.
\<close>

definition startup_fails :: "(string \<Rightarrow> string) \<Rightarrow> flags \<Rightarrow> os_env \<Rightarrow> bool" where
  "startup_fails ToUpper fl env =
    (isl (signalByName ToUpper (sigFlag fl)) \<or> NewWatcher env \<noteq> None \<or> filesFlag fl = [] \<or>
     Args fl = [] \<or>
     list_ex (\<lambda>f. watcher_Add env f \<noteq> None) (Split (filesFlag fl) CHR '':'') \<or>
     cmd_Start env \<noteq> None)"







section \<open>Properties\<close>

subsection \<open>Basic facts\<close>

lemmas step_defs = step_def emit_def begin_shutdown_def force_kill_def suicide_def
  broadcast_def on_event_def fire_def

lemmas pc_splits = ctl_pc.splits option.splits if_splits disp_pc.splits

lemmas count_defs = graceful_timers_def forced_timers_def force_kills_def actions_def

lemma run_append:
  "run cfg s (es @ fs) = (case run cfg s es of None \<Rightarrow> None | Some s' \<Rightarrow> run cfg s' fs)"
  by (induction es arbitrary: s) (auto split: option.splits)

lemma countdown_neq_Second: "countdown \<noteq> Second"
  by (simp add: countdown_def Second_def)

subsection \<open>The shutdown sequence runs at most once\<close>

lemma shutdown_inv_init: "shutdown_inv init"
  by (simp add: shutdown_inv_def init_def count_defs)

lemma shutdown_inv_step:
  assumes "shutdown_inv s" and "step cfg s e = Some s'"
  shows "shutdown_inv s'"
proof (cases e)
  case CtlReceive
  with assms show ?thesis
    by (auto simp: shutdown_inv_def step_defs count_defs Let_def countdown_neq_Second
        split: pc_splits)
next
  case CtlDone
  with assms show ?thesis
    by (auto simp: shutdown_inv_def step_defs count_defs countdown_neq_Second [symmetric]
        split: pc_splits)
next
  case CtlTimeout
  with assms show ?thesis
    by (auto simp: shutdown_inv_def step_defs count_defs countdown_neq_Second [symmetric]
        split: pc_splits)
next
  case (FsEvent name op)
  with assms show ?thesis
    by (auto simp: shutdown_inv_def step_defs count_defs Let_def
        split: pc_splits)
next
  case DispFire
  with assms show ?thesis
    by (auto simp: shutdown_inv_def step_defs count_defs
        split: pc_splits)
qed (use assms in \<open>auto simp: shutdown_inv_def step_defs count_defs
        split: pc_splits\<close>)

lemma shutdown_inv_run:
  "shutdown_inv s \<Longrightarrow> run cfg s es = Some s' \<Longrightarrow> shutdown_inv s'"
  by (induction es arbitrary: s) (auto split: option.splits dest: shutdown_inv_step)

text \<open>
  C6. In every execution of the runtime the graceful timer \<^verbatim>\<open>time.After(countdown)\<close> is
  started at most once, the second timer at most once, and the forced kill of line 174
  is sent at most once; once the controller has left its receive loop for the shutdown
  sequence, exactly one graceful timer has been started, whatever signals arrive later.
  The controller never returns to \<^verbatim>\<open>sig = <-c\<close> from the sequence, which ends in
  \<^verbatim>\<open>os.Exit(1)\<close>.
\<close>

theorem single_shutdown_sequence:
  assumes "run cfg init es = Some s"
  shows "graceful_timers s \<le> 1 \<and> forced_timers s \<le> 1 \<and> force_kills s \<le> 1 \<and>
         (ctl s \<noteq> Running \<longrightarrow> graceful_timers s = 1)"
proof -
  have "shutdown_inv s"
    using shutdown_inv_init assms by (rule shutdown_inv_run)
  then show ?thesis
    by (cases "ctl s") (simp_all add: shutdown_inv_def)
qed

text \<open>
  The witness: two termination signals right after one another, then a third during
  the shutdown sequence, which runs to its end.
\<close>

theorem single_shutdown_sequence_witness:
  "\<exists>s. run example_cfg init
          [Deliver SIGTERM, CtlReceive, Deliver SIGINT, Tick countdown, CtlTimeout,
           Deliver SIGTERM, Tick Second, CtlTimeout] = Some s \<and>
       exited s = Some 1 \<and> ctl s \<noteq> Running \<and>
       graceful_timers s = 1 \<and> forced_timers s \<le> 1 \<and> force_kills s \<le> 1"
proof -
  have "\<exists>s. run example_cfg init
          [Deliver SIGTERM, CtlReceive, Deliver SIGINT, Tick countdown, CtlTimeout,
           Deliver SIGTERM, Tick Second, CtlTimeout] = Some s \<and>
       exited s = Some 1 \<and> ctl s \<noteq> Running"
    by (simp add: step_defs init_def termination_class_def os_Interrupt_def os_Kill_def
        countdown_def Second_def)
  then obtain s where r: "run example_cfg init
          [Deliver SIGTERM, CtlReceive, Deliver SIGINT, Tick countdown, CtlTimeout,
           Deliver SIGTERM, Tick Second, CtlTimeout] = Some s"
    and x: "exited s = Some 1" "ctl s \<noteq> Running"
    by blast
  from single_shutdown_sequence [OF r] x r show ?thesis
    by simp
qed

subsection \<open>The dispatcher with no process\<close>

lemma run_snoc:
  "run cfg s (es @ [e]) = (case run cfg s es of None \<Rightarrow> None | Some s' \<Rightarrow> step cfg s' e)"
  by (simp add: run_append split: option.splits)

lemma debounce_signals_nil_step:
  assumes "process cfg = None" and "step cfg s e = Some s'"
  shows "debounce_signals s' = debounce_signals s"
  using assms
  by (cases e)
    (auto simp: step_defs debounce_signals_def Let_def
      split: pc_splits)

lemma debounce_signals_nil_run:
  "process cfg = None \<Longrightarrow> run cfg s es = Some s' \<Longrightarrow>
   debounce_signals s' = debounce_signals s"
  by (induction es arbitrary: s) (auto split: option.splits dest: debounce_signals_nil_step)

text \<open>
  C7. When the dispatcher's sleep is over and \<^verbatim>\<open>process\<close> is nil, the fire point changes
  nothing but the dispatcher's position: no action is recorded (no signal, no log line,
  no error), the program does not exit, and the dispatcher is back at the head of its
  loop, where \<^verbatim>\<open>cond.Wait()\<close> is its next step. With a nil \<^verbatim>\<open>process\<close> no execution
  ever sends a debounce signal.
\<close>

theorem nil_process_fire_dropped:
  assumes "process cfg = None" and "exited s = None"
    and "disp s = DispSleeping until" and "until \<le> now s"
  shows "step cfg s DispFire = Some (s\<lparr>disp := DispLoop\<rparr>) \<and>
         step cfg (s\<lparr>disp := DispLoop\<rparr>) DispWait = Some (s\<lparr>disp := DispWaiting\<rparr>) \<and>
         (\<forall>es s'. run cfg s es = Some s' \<longrightarrow> debounce_signals s' = debounce_signals s)"
  using assms by (auto simp: step_def fire_def dest: debounce_signals_nil_run)

theorem nil_process_fire_dropped_witness:
  "\<exists>s. run (example_cfg\<lparr>process := None\<rparr>) init
          [DispWait, FsEvent ''main.go'' 2, DispSleep, Tick (3 * Second)] = Some s \<and>
       step (example_cfg\<lparr>process := None\<rparr>) s DispFire = Some (s\<lparr>disp := DispLoop\<rparr>) \<and>
       acts (s\<lparr>disp := DispLoop\<rparr>) = acts s \<and>
       exited (s\<lparr>disp := DispLoop\<rparr>) = None \<and>
       step (example_cfg\<lparr>process := None\<rparr>) (s\<lparr>disp := DispLoop\<rparr>) DispWait =
         Some (s\<lparr>disp := DispWaiting\<rparr>)"
proof -
  have "\<exists>s. run (example_cfg\<lparr>process := None\<rparr>) init
          [DispWait, FsEvent ''main.go'' 2, DispSleep, Tick (3 * Second)] = Some s \<and>
          exited s = None \<and> disp s = DispSleeping (3 * Second) \<and> 3 * Second \<le> now s"
    by (simp add: step_defs init_def example_cfg_def Rename_def Second_def)
  then obtain s where r: "run (example_cfg\<lparr>process := None\<rparr>) init
          [DispWait, FsEvent ''main.go'' 2, DispSleep, Tick (3 * Second)] = Some s"
    and x: "exited s = None" "disp s = DispSleeping (3 * Second)" "3 * Second \<le> now s"
    by blast
  have "process (example_cfg\<lparr>process := None\<rparr>) = None"
    by simp
  from nil_process_fire_dropped [OF this x] r x show ?thesis
    by simp
qed

subsection \<open>The aggregator\<close>

lemma broadcasts_step:
  assumes "step cfg s e = Some s'"
  shows "broadcasts s' = broadcasts s + (if is_FsEvent e then 1 else 0)"
  using assms
  by (cases e)
    (auto simp: step_defs broadcasts_def actions_def is_FsEvent_def Let_def
      split: pc_splits)

lemma broadcasts_run:
  "run cfg s es = Some s' \<Longrightarrow> broadcasts s' = broadcasts s + length (filter is_FsEvent es)"
  by (induction es arbitrary: s) (auto split: option.splits dest: broadcasts_step)

text \<open>
  C8. While the program runs, an event of the watcher is always taken, whatever its
  \<^verbatim>\<open>Op\<close>: the aggregator logs it and calls \<^verbatim>\<open>cond.Broadcast()\<close> once, and when the
  \<^verbatim>\<open>Rename\<close> bit of \<^verbatim>\<open>Op\<close> is set it then removes the watch of the event's name and
  adds it again, in this order. An error of the watcher is logged and nothing else: the
  program has not exited, and the next event and the next error are taken as before. In
  every execution the number of broadcasts is the number of events received.
\<close>

theorem aggregator_notifies_once:
  assumes "exited s = None"
  shows "(\<exists>s'. step cfg s (FsEvent name op) = Some s' \<and>
            actions s' = actions s @
              [LogPrintln (''==> detected change in '' @ name), Broadcast] @
              (if op AND Rename = Rename then [WatcherRemove name, WatcherAdd name] else []) \<and>
            broadcasts s' = broadcasts s + 1 \<and> exited s' = None) \<and>
         (\<exists>s'. step cfg s (FsError err) = Some s' \<and>
            actions s' = actions s @ [LogPrintln (''==> error: '' @ err)] \<and>
            exited s' = None \<and>
            (\<forall>name' op'. step cfg s' (FsEvent name' op') \<noteq> None) \<and>
            (\<forall>err'. step cfg s' (FsError err') \<noteq> None)) \<and>
         (\<forall>es s'. run cfg s es = Some s' \<longrightarrow>
            broadcasts s' = broadcasts s + length (filter is_FsEvent es))"
  using assms
  by (auto simp: step_defs actions_def broadcasts_def Let_def dest: broadcasts_run)

text \<open>The witness: a rename (\<^verbatim>\<open>Op = Rename\<close>) and an error, at the start of the runtime.\<close>

theorem aggregator_notifies_once_witness:
  "exited init = None \<and>
   (\<exists>s'. step example_cfg init (FsEvent ''main.go'' 8) = Some s' \<and>
      actions s' = [LogPrintln ''==> detected change in main.go'', Broadcast,
                    WatcherRemove ''main.go'', WatcherAdd ''main.go''] \<and>
      broadcasts s' = 1 \<and> exited s' = None) \<and>
   (\<exists>s'. step example_cfg init (FsError ''overflow'') = Some s' \<and>
      actions s' = [LogPrintln ''==> error: overflow''] \<and> exited s' = None)"
proof -
  have e: "exited init = None"
    by (simp add: init_def)
  have a: "actions init = []" "broadcasts init = 0"
    by (simp_all add: init_def actions_def broadcasts_def)
  have w: "(8 :: 32 word) AND Rename = Rename"
    by (simp add: Rename_def)
  have "\<exists>s'. step example_cfg init (FsEvent ''main.go'' 8) = Some s' \<and>
      actions s' = actions init @
        [LogPrintln (''==> detected change in '' @ ''main.go''), Broadcast] @
        (if (8 :: 32 word) AND Rename = Rename
         then [WatcherRemove ''main.go'', WatcherAdd ''main.go''] else []) \<and>
      broadcasts s' = broadcasts init + 1 \<and> exited s' = None"
    and "\<exists>s'. step example_cfg init (FsError ''overflow'') = Some s' \<and>
      actions s' = actions init @ [LogPrintln (''==> error: '' @ ''overflow'')] \<and>
      exited s' = None"
    using aggregator_notifies_once [OF e, of example_cfg "''main.go''" 8 "''overflow''"]
    by blast+
  then show ?thesis
    by (simp add: a w e)
qed

subsection \<open>No fire without a broadcast\<close>

lemma pending_step:
  assumes "step cfg s e = Some s'"
    and "length (debounce_signals s) + pending s \<le> broadcasts s"
  shows "length (debounce_signals s') + pending s' \<le> broadcasts s'"
  using assms
  by (cases e)
    (auto simp: step_defs debounce_signals_def broadcasts_def actions_def pending_def Let_def
      split: pc_splits)

lemma pending_run:
  "run cfg s es = Some s' \<Longrightarrow> length (debounce_signals s) + pending s \<le> broadcasts s \<Longrightarrow>
   length (debounce_signals s') + pending s' \<le> broadcasts s'"
  by (induction es arbitrary: s) (auto split: option.splits dest: pending_step)

lemma disp_inv_step:
  assumes "disp_inv es s" and "step cfg s e = Some s'"
  shows "disp_inv (es @ [e]) s'"
  using assms
  by (cases e)
    (auto simp: step_defs disp_inv_def notified_since_wait_def is_FsEvent_def Let_def
      split: pc_splits)

lemma disp_inv_run:
  "run cfg init es = Some s \<Longrightarrow> disp_inv es s"
proof (induction es arbitrary: s rule: rev_induct)
  case Nil
  then show ?case by (auto simp: disp_inv_def init_def)
next
  case (snoc e es)
  then show ?case
    by (auto simp: run_snoc split: option.splits dest: disp_inv_step)
qed

lemma fire_needs_sleeping:
  "step cfg s DispFire = Some s' \<Longrightarrow> \<exists>u. disp s = DispSleeping u"
  by (auto simp: step_def split: if_splits disp_pc.splits)

text \<open>
  C10. In every execution the dispatcher sends at most as many signals as events were
  broadcast, so none when none was; and whenever the dispatcher reaches its fire point,
  it has called \<^verbatim>\<open>cond.Wait()\<close> before and a broadcast has happened since its last call
  of \<^verbatim>\<open>cond.Wait()\<close>. (\<^verbatim>\<open>sync.Cond.Wait\<close> returns only when woken by a broadcast.)
\<close>

theorem fire_needs_notify:
  assumes "run cfg init es = Some s"
  shows "length (debounce_signals s) \<le> length (filter is_FsEvent es) \<and>
         (\<forall>pre post. es = pre @ DispFire # post \<longrightarrow> notified_since_wait pre)"
proof
  have "length (debounce_signals init) + pending init \<le> broadcasts init"
    by (simp add: init_def debounce_signals_def pending_def)
  with assms have "length (debounce_signals s) + pending s \<le> broadcasts s"
    by (rule pending_run)
  moreover have "broadcasts s = length (filter is_FsEvent es)"
    using broadcasts_run [OF assms] by (simp add: broadcasts_def actions_def init_def)
  ultimately show "length (debounce_signals s) \<le> length (filter is_FsEvent es)"
    by simp
next
  show "\<forall>pre post. es = pre @ DispFire # post \<longrightarrow> notified_since_wait pre"
  proof (intro allI impI)
    fix pre post
    assume "es = pre @ DispFire # post"
    with assms obtain s1 s2 where r: "run cfg init pre = Some s1"
      and f: "step cfg s1 DispFire = Some s2"
      by (auto simp: run_append split: option.splits)
    from f obtain u where "disp s1 = DispSleeping u"
      by (auto dest: fire_needs_sleeping)
    with disp_inv_run [OF r] show "notified_since_wait pre"
      by (simp add: disp_inv_def)
  qed
qed

text \<open>The witness: one cycle of the dispatcher, from its wait to its fire.\<close>

theorem fire_needs_notify_witness:
  "\<exists>s. run example_cfg init
          [DispWait, FsEvent ''main.go'' 2, DispSleep, Tick (3 * Second), DispFire] = Some s \<and>
       debounce_signals s = [(3 * Second, SIGHUP)] \<and>
       length (debounce_signals s) \<le>
         length (filter is_FsEvent
           [DispWait, FsEvent ''main.go'' 2, DispSleep, Tick (3 * Second), DispFire]) \<and>
       notified_since_wait [DispWait, FsEvent ''main.go'' 2, DispSleep, Tick (3 * Second)]"
proof -
  have "\<exists>s. run example_cfg init
          [DispWait, FsEvent ''main.go'' 2, DispSleep, Tick (3 * Second), DispFire] = Some s \<and>
          debounce_signals s = [(3 * Second, SIGHUP)]"
    by (simp add: step_defs init_def example_cfg_def Rename_def Second_def debounce_signals_def)
  then obtain s where r: "run example_cfg init
          [DispWait, FsEvent ''main.go'' 2, DispSleep, Tick (3 * Second), DispFire] = Some s"
    and d: "debounce_signals s = [(3 * Second, SIGHUP)]"
    by blast
  from fire_needs_notify [OF r]
  have "length (debounce_signals s) \<le>
         length (filter is_FsEvent
           [DispWait, FsEvent ''main.go'' 2, DispSleep, Tick (3 * Second), DispFire])"
    and "notified_since_wait [DispWait, FsEvent ''main.go'' 2, DispSleep, Tick (3 * Second)]"
    by (blast, auto)
  with r d show ?thesis
    by blast
qed

subsection \<open>Forwarding of signals\<close>

lemma delivered_snoc:
  "delivered (es @ [e]) = delivered es @ (case e of Deliver sg \<Rightarrow> [sg] | _ \<Rightarrow> [])"
  by (simp add: delivered_def)

lemma accepted_step:
  assumes "step cfg s e = Some s'"
  shows "(\<exists>sg. e = Deliver sg \<and> (forwarded s' @ buffered s' = forwarded s @ buffered s @ [sg]
            \<or> forwarded s' @ buffered s' = forwarded s @ buffered s))
       \<or> ((\<forall>sg. e \<noteq> Deliver sg) \<and> forwarded s' @ buffered s' = forwarded s @ buffered s)"
  using assms
  by (cases e)
    (auto simp: step_defs forwarded_def buffered_def actions_def Let_def
      split: pc_splits)

lemma accepted_run:
  "run cfg init es = Some s \<Longrightarrow> subseq (forwarded s @ buffered s) (delivered es)"
proof (induction es arbitrary: s rule: rev_induct)
  case Nil
  then show ?case by (auto simp: init_def forwarded_def buffered_def actions_def delivered_def)
next
  case (snoc e es)
  then obtain s1 where r: "run cfg init es = Some s1" and st: "step cfg s1 e = Some s"
    by (auto simp: run_snoc split: option.splits)
  from snoc.IH [OF r] have ih: "subseq (forwarded s1 @ buffered s1) (delivered es)" .
  from accepted_step [OF st] show ?case
  proof (elim disjE exE conjE)
    fix sg assume "e = Deliver sg"
      and "forwarded s @ buffered s = forwarded s1 @ buffered s1 @ [sg]"
    with ih show ?thesis
      by (simp add: delivered_snoc flip: append_assoc)
  next
    fix sg assume "e = Deliver sg"
      and "forwarded s @ buffered s = forwarded s1 @ buffered s1"
    with ih show ?thesis
      by (simp add: delivered_snoc list_emb_append_mono [where ys = "[]", simplified])
  next
    assume "\<forall>sg. e \<noteq> Deliver sg"
      and "forwarded s @ buffered s = forwarded s1 @ buffered s1"
    with ih show ?thesis
      by (cases e) (simp_all add: delivered_snoc)
  qed
qed

lemma forwarded_count_step:
  assumes "step cfg s e = Some s'"
  shows "length (forwarded s') = length (forwarded s) + (if e = CtlReceive then 1 else 0)"
  using assms
  by (cases e)
    (auto simp: step_defs forwarded_def actions_def Let_def
      split: pc_splits)

lemma forwarded_count_run:
  "run cfg s es = Some s' \<Longrightarrow>
   length (forwarded s') = length (forwarded s) + count_list es CtlReceive"
  by (induction es arbitrary: s) (auto split: option.splits dest: forwarded_count_step)

lemma shutdown_keeps_forwarded_step:
  assumes "step cfg s e = Some s'" and "ctl s \<noteq> Running"
  shows "forwarded s' = forwarded s \<and> ctl s' \<noteq> Running"
  using assms
  by (cases e)
    (auto simp: step_defs forwarded_def actions_def Let_def
      split: pc_splits)

lemma shutdown_keeps_forwarded_run:
  "run cfg s es = Some s' \<Longrightarrow> ctl s \<noteq> Running \<Longrightarrow> forwarded s' = forwarded s"
proof (induction es arbitrary: s)
  case Nil
  then show ?case by simp
next
  case (Cons e es)
  then obtain s1 where st: "step cfg s e = Some s1" and r: "run cfg s1 es = Some s'"
    by (auto split: option.splits)
  from shutdown_keeps_forwarded_step [OF st Cons.prems(2)] Cons.IH [OF r] show ?case
    by simp
qed

lemma receive_forwards_first:
  assumes "step cfg s CtlReceive = Some s'"
  shows "\<exists>sg. c_buf s = Some sg \<and>
           actions s' = actions s @ Forward sg #
             (if termination_class sg
              then [Println ''==> attempting to shut down cleanly'',
                    Println ''==> waiting up to 5s for child to exit'', TimeAfter countdown]
              else [])"
  using assms
  by (auto simp: step_defs actions_def Let_def split: pc_splits)

text \<open>
  C3, as amended. The claim as stated fails: a signal received during the shutdown
  sequence is never forwarded (the counterexample below). What holds in
  every execution: the signals forwarded, followed by the one waiting in \<^verbatim>\<open>c\<close>, are a
  subsequence of the signals received, so no signal is forwarded twice or out of order;
  there is one forward for each receive of the controller; the forward is the first
  action of that step, before the lines and the timer of the shutdown sequence; and
  once the controller has left \<open>Running\<close>, no later signal is forwarded.
\<close>

theorem forward_on_receive:
  assumes "run cfg init es = Some s"
  shows "subseq (forwarded s @ buffered s) (delivered es) \<and>
         subseq (forwarded s) (delivered es) \<and>
         length (forwarded s) = count_list es CtlReceive \<and>
         (\<forall>s'. step cfg s CtlReceive = Some s' \<longrightarrow>
            (\<exists>sg. c_buf s = Some sg \<and>
               actions s' = actions s @ Forward sg #
                 (if termination_class sg
                  then [Println ''==> attempting to shut down cleanly'',
                        Println ''==> waiting up to 5s for child to exit'', TimeAfter countdown]
                  else []))) \<and>
         (ctl s \<noteq> Running \<longrightarrow>
            (\<forall>fs s'. run cfg s fs = Some s' \<longrightarrow> forwarded s' = forwarded s))"
proof (intro conjI)
  show a: "subseq (forwarded s @ buffered s) (delivered es)"
    using assms by (rule accepted_run)
  have "subseq (forwarded s) (forwarded s @ buffered s)"
    by (rule list_emb_prefix) simp
  then show "subseq (forwarded s) (delivered es)"
    using a by (rule subseq_order.order_trans)
  show "length (forwarded s) = count_list es CtlReceive"
    using forwarded_count_run [OF assms] by (simp add: init_def forwarded_def actions_def)
  show "\<forall>s'. step cfg s CtlReceive = Some s' \<longrightarrow>
            (\<exists>sg. c_buf s = Some sg \<and>
               actions s' = actions s @ Forward sg #
                 (if termination_class sg
                  then [Println ''==> attempting to shut down cleanly'',
                        Println ''==> waiting up to 5s for child to exit'', TimeAfter countdown]
                  else []))"
    by (blast dest: receive_forwards_first)
  show "ctl s \<noteq> Running \<longrightarrow>
            (\<forall>fs s'. run cfg s fs = Some s' \<longrightarrow> forwarded s' = forwarded s)"
    by (blast dest: shutdown_keeps_forwarded_run)
qed

text \<open>
  The counterexample to C3: SIGTERM starts the shutdown sequence, SIGHUP is received
  while the controller waits in its first \<^verbatim>\<open>select\<close>, and the program exits with only
  SIGTERM forwarded.
\<close>

theorem forward_always_counterexample:
  "map_option forwarded
     (run example_cfg init
        [Deliver SIGTERM, CtlReceive, Deliver SIGHUP, Tick countdown, CtlTimeout,
         Tick Second, CtlTimeout]) = Some [SIGTERM] \<and>
   delivered
     [Deliver SIGTERM, CtlReceive, Deliver SIGHUP, Tick countdown, CtlTimeout,
      Tick Second, CtlTimeout] = [SIGTERM, SIGHUP] \<and>
   map_option exited
     (run example_cfg init
        [Deliver SIGTERM, CtlReceive, Deliver SIGHUP, Tick countdown, CtlTimeout,
         Tick Second, CtlTimeout]) = Some (Some 1)"
  by (simp add: step_defs init_def termination_class_def os_Interrupt_def os_Kill_def
      countdown_def Second_def forwarded_def actions_def delivered_def)

text \<open>The witness: two signals forwarded while running, a third received while draining.\<close>

theorem forward_on_receive_witness:
  "\<exists>s. run example_cfg init
          [Deliver SIGHUP, CtlReceive, Deliver SIGTERM, CtlReceive, Deliver SIGINT] = Some s \<and>
       ctl s \<noteq> Running \<and>
       forwarded s = [SIGHUP, SIGTERM] \<and>
       subseq (forwarded s)
         (delivered [Deliver SIGHUP, CtlReceive, Deliver SIGTERM, CtlReceive, Deliver SIGINT]) \<and>
       (\<exists>s'. run example_cfg s [Tick countdown, CtlTimeout, Tick Second, CtlTimeout] = Some s' \<and>
          exited s' = Some 1 \<and> forwarded s' = forwarded s)"
proof -
  have "\<exists>s. run example_cfg init
          [Deliver SIGHUP, CtlReceive, Deliver SIGTERM, CtlReceive, Deliver SIGINT] = Some s \<and>
       ctl s \<noteq> Running \<and> forwarded s = [SIGHUP, SIGTERM] \<and>
       (\<exists>s'. run example_cfg s [Tick countdown, CtlTimeout, Tick Second, CtlTimeout] = Some s' \<and>
          exited s' = Some 1)"
    by (simp add: step_defs init_def termination_class_def os_Interrupt_def os_Kill_def
        countdown_def Second_def forwarded_def actions_def)
  then obtain s s' where r: "run example_cfg init
          [Deliver SIGHUP, CtlReceive, Deliver SIGTERM, CtlReceive, Deliver SIGINT] = Some s"
    and x: "ctl s \<noteq> Running" "forwarded s = [SIGHUP, SIGTERM]"
    and r': "run example_cfg s [Tick countdown, CtlTimeout, Tick Second, CtlTimeout] = Some s'"
       "exited s' = Some 1"
    by blast
  from forward_on_receive [OF r] x r' have "subseq (forwarded s)
         (delivered [Deliver SIGHUP, CtlReceive, Deliver SIGTERM, CtlReceive, Deliver SIGINT])"
    and "forwarded s' = forwarded s"
    by blast+
  with r x r' show ?thesis
    by blast
qed

subsection \<open>The receivers of the exit notification\<close>

lemma hd_is_simps [simp]:
  "hd_is r [] = False" "hd_is r (x # q) = (x = r)"
  by (simp_all add: hd_is_def)












lemma exited_stuck: "exited s \<noteq> None \<Longrightarrow> step cfg s e = None"
  by (auto simp: step_def)




subsection \<open>Prompt executions\<close>




subsection \<open>The graceful race\<close>








subsection \<open>The exit notification is received once\<close>











subsection \<open>The forced kill and the exit status\<close>







text \<open>
  The child has not exited a millisecond after the deadline and the timer's case has
  not been taken yet; the child exits and \<^verbatim>\<open>main\<close> returns: no forced kill is sent.
\<close>

lemma late_timer_no_kill:
  "map_option waiter
     (run example_cfg init [Deliver SIGTERM, CtlReceive, Tick (countdown + Millisecond)])
     = Some ChildRunning \<and>
   map_option force_kills
     (run example_cfg init
        [Deliver SIGTERM, CtlReceive, Tick (countdown + Millisecond), ChildExit, MainDone,
         MainClose, MainReturn]) = Some 0 \<and>
   map_option exited
     (run example_cfg init
        [Deliver SIGTERM, CtlReceive, Tick (countdown + Millisecond), ChildExit, MainDone,
         MainClose, MainReturn]) = Some (Some 0)"
  by (simp add: step_defs init_def termination_class_def os_Interrupt_def os_Kill_def
      countdown_def Second_def Millisecond_def force_kills_def actions_def)


subsection \<open>One signal for a burst, a delay after its first event\<close>

lemma woken_step:
  assumes "woken_inv t0 ds s" and "step cfg s e = Some s'" and "e \<noteq> DispSleep"
  shows "woken_inv t0 ds s'"
  using assms
  by (cases e)
    (auto simp: step_defs woken_inv_def debounce_signals_def Let_def split: pc_splits)

lemma woken_run:
  "run cfg s es = Some s' \<Longrightarrow> woken_inv t0 ds s \<Longrightarrow> DispSleep \<notin> set es \<Longrightarrow>
   woken_inv t0 ds s'"
proof (induction es arbitrary: s)
  case Nil
  then show ?case by simp
next
  case (Cons e es)
  then obtain s1 where st: "step cfg s e = Some s1" and r: "run cfg s1 es = Some s'"
    by (auto split: option.splits)
  from Cons.prems have "e \<noteq> DispSleep" "DispSleep \<notin> set es"
    by auto
  with woken_step [OF Cons.prems(2) st] Cons.IH [OF r] show ?case
    by blast
qed

lemma asleep_step:
  assumes "asleep_inv due ds s" and "step cfg s e = Some s'" and "e \<noteq> DispFire"
  shows "asleep_inv due ds s'"
  using assms
  by (cases e)
    (auto simp: step_defs asleep_inv_def debounce_signals_def Let_def split: pc_splits)

lemma asleep_run:
  "run cfg s es = Some s' \<Longrightarrow> asleep_inv due ds s \<Longrightarrow> DispFire \<notin> set es \<Longrightarrow>
   asleep_inv due ds s'"
proof (induction es arbitrary: s)
  case Nil
  then show ?case by simp
next
  case (Cons e es)
  then obtain s1 where st: "step cfg s e = Some s1" and r: "run cfg s1 es = Some s'"
    by (auto split: option.splits)
  from Cons.prems have "e \<noteq> DispFire" "DispFire \<notin> set es"
    by auto
  with asleep_step [OF Cons.prems(2) st] Cons.IH [OF r] show ?case
    by blast
qed

lemma first_broadcast:
  assumes "disp s = DispWaiting" and "step cfg s (FsEvent name op) = Some s1"
  shows "woken_inv (now s) (debounce_signals s) s1 \<and> now s1 = now s"
  using assms
  by (auto simp: step_defs woken_inv_def debounce_signals_def Let_def split: if_splits)

lemma sleep_begins:
  assumes "woken_inv t0 ds s" and "step cfg s DispSleep = Some s'"
  shows "asleep_inv (now s + delay cfg) ds s'"
  using assms
  by (auto simp: step_defs woken_inv_def asleep_inv_def debounce_signals_def split: if_splits)

lemma fire_when_due:
  assumes "asleep_inv due ds s" and "process cfg = Some p"
  shows "(step cfg s DispFire \<noteq> None \<longleftrightarrow> exited s = None \<and> due \<le> now s) \<and>
         (\<forall>s'. step cfg s DispFire = Some s' \<longrightarrow>
            debounce_signals s' = ds @ [(now s, sig cfg)] \<and> disp s' = DispLoop)"
  using assms
  by (auto simp: step_defs asleep_inv_def debounce_signals_def split: if_splits)

text \<open>
  C4, as amended. The claim as stated fails: the signal is sent a delay after the first
  call of the burst, not after the last (the counterexample below). What holds: when
  the dispatcher is waiting and an event is broadcast, the dispatcher is woken; when it
  then calls \<^verbatim>\<open>time.Sleep\<close>, at the time of that first broadcast if it runs at once
  (\<open>es0 = []\<close>) and never before, its sleep is due \<open>delay\<close> later, and whatever happens
  until its fire point, however many further events are broadcast and whenever, the
  dispatcher is asleep with the same due time and has sent nothing: a broadcast during
  the sleep does not restart it. The fire point is enabled exactly when the program
  runs and the due time has come; it sends exactly one signal and leaves the dispatcher
  at the head of its loop, not woken.
\<close>

theorem trailing_fixed_delay:
  assumes "disp s = DispWaiting" and "process cfg = Some p"
    and "run cfg s (FsEvent name op # es0) = Some s1" and "DispSleep \<notin> set es0"
    and "run cfg s1 (DispSleep # es) = Some s2" and "DispFire \<notin> set es"
  shows "now s \<le> now s1 \<and> (es0 = [] \<longrightarrow> now s1 = now s) \<and>
         disp s2 = DispSleeping (now s1 + delay cfg) \<and>
         debounce_signals s2 = debounce_signals s \<and>
         (step cfg s2 DispFire \<noteq> None \<longleftrightarrow>
            exited s2 = None \<and> now s1 + delay cfg \<le> now s2) \<and>
         (\<forall>s'. step cfg s2 DispFire = Some s' \<longrightarrow>
            debounce_signals s' = debounce_signals s @ [(now s2, sig cfg)] \<and>
            disp s' = DispLoop)"
proof -
  from assms(3) obtain s0 where a: "step cfg s (FsEvent name op) = Some s0"
    and b: "run cfg s0 es0 = Some s1"
    by (auto split: option.splits)
  from first_broadcast [OF assms(1) a]
  have w0: "woken_inv (now s) (debounce_signals s) s0" and n0: "now s0 = now s"
    by simp_all
  from b w0 assms(4) have w1: "woken_inv (now s) (debounce_signals s) s1"
    by (rule woken_run)
  from assms(5) obtain s1' where c: "step cfg s1 DispSleep = Some s1'"
    and d: "run cfg s1' es = Some s2"
    by (auto split: option.splits)
  from w1 c have "asleep_inv (now s1 + delay cfg) (debounce_signals s) s1'"
    by (rule sleep_begins)
  with d have z: "asleep_inv (now s1 + delay cfg) (debounce_signals s) s2"
    using assms(6) by (rule asleep_run)
  have "es0 = [] \<longrightarrow> now s1 = now s"
    using b n0 by auto
  with w1 z fire_when_due [OF z assms(2)] show ?thesis
    by (simp add: woken_inv_def asleep_inv_def)
qed

text \<open>
  The counterexample to C4, the scenario of the specification: a delay of 200 ms and
  events at 0, 10, 20, 150 and 160 ms, each less than the delay after the one before. The
  one signal is sent at 200 ms, and none at 360 ms, where the dispatcher is waiting
  again.
\<close>

theorem coalescing_counterexample:
  "map_option broadcast_times
     (run (example_cfg\<lparr>delay := 200 * Millisecond\<rparr>) init
        [DispWait, FsEvent ''main.go'' 2, DispSleep,
         Tick (10 * Millisecond), FsEvent ''main.go'' 2,
         Tick (10 * Millisecond), FsEvent ''main.go'' 2,
         Tick (130 * Millisecond), FsEvent ''main.go'' 2,
         Tick (10 * Millisecond), FsEvent ''main.go'' 2,
         Tick (40 * Millisecond), DispFire, DispWait, Tick (200 * Millisecond)])
     = Some [0, 10 * Millisecond, 20 * Millisecond, 150 * Millisecond, 160 * Millisecond] \<and>
   map_option debounce_signals
     (run (example_cfg\<lparr>delay := 200 * Millisecond\<rparr>) init
        [DispWait, FsEvent ''main.go'' 2, DispSleep,
         Tick (10 * Millisecond), FsEvent ''main.go'' 2,
         Tick (10 * Millisecond), FsEvent ''main.go'' 2,
         Tick (130 * Millisecond), FsEvent ''main.go'' 2,
         Tick (10 * Millisecond), FsEvent ''main.go'' 2,
         Tick (40 * Millisecond), DispFire, DispWait, Tick (200 * Millisecond)])
     = Some [(200 * Millisecond, SIGHUP)] \<and>
   map_option debounce_signals
     (run (example_cfg\<lparr>delay := 200 * Millisecond\<rparr>) init
        [DispWait, FsEvent ''main.go'' 2, DispSleep,
         Tick (10 * Millisecond), FsEvent ''main.go'' 2,
         Tick (10 * Millisecond), FsEvent ''main.go'' 2,
         Tick (130 * Millisecond), FsEvent ''main.go'' 2,
         Tick (10 * Millisecond), FsEvent ''main.go'' 2,
         Tick (40 * Millisecond), DispFire, DispWait, Tick (200 * Millisecond)])
     \<noteq> Some [(160 * Millisecond + 200 * Millisecond, SIGHUP)]"
  by (simp add: step_defs init_def example_cfg_def Rename_def Millisecond_def
      debounce_signals_def broadcast_times_def)

text \<open>
  The witness: three events within the delay of 200 ms; the sleep is due at 200 ms, and
  the fire then sends the one signal.
\<close>

theorem trailing_fixed_delay_witness:
  "\<exists>s1 s2 s'.
     run (example_cfg\<lparr>delay := 200 * Millisecond\<rparr>) (init\<lparr>disp := DispWaiting\<rparr>)
       (FsEvent ''main.go'' 2 # []) = Some s1 \<and>
     run (example_cfg\<lparr>delay := 200 * Millisecond\<rparr>) s1
       (DispSleep #
        [Tick (10 * Millisecond), FsEvent ''main.go'' 2, Tick (140 * Millisecond),
         FsEvent ''main.go'' 2, Tick (50 * Millisecond)]) = Some s2 \<and>
     now s1 = 0 \<and> now s2 = 200 * Millisecond \<and>
     disp s2 = DispSleeping (200 * Millisecond) \<and>
     step (example_cfg\<lparr>delay := 200 * Millisecond\<rparr>) s2 DispFire = Some s' \<and>
     debounce_signals s' = [(200 * Millisecond, SIGHUP)]"
proof -
  have "\<exists>s1 s2 s'.
     run (example_cfg\<lparr>delay := 200 * Millisecond\<rparr>) (init\<lparr>disp := DispWaiting\<rparr>)
       (FsEvent ''main.go'' 2 # []) = Some s1 \<and>
     run (example_cfg\<lparr>delay := 200 * Millisecond\<rparr>) s1
       (DispSleep #
        [Tick (10 * Millisecond), FsEvent ''main.go'' 2, Tick (140 * Millisecond),
         FsEvent ''main.go'' 2, Tick (50 * Millisecond)]) = Some s2 \<and>
     now s1 = 0 \<and> now s2 = 200 * Millisecond \<and>
     step (example_cfg\<lparr>delay := 200 * Millisecond\<rparr>) s2 DispFire = Some s'"
    by (simp add: step_defs init_def example_cfg_def Rename_def Millisecond_def)
  then obtain s1 s2 s' where
    r1: "run (example_cfg\<lparr>delay := 200 * Millisecond\<rparr>) (init\<lparr>disp := DispWaiting\<rparr>)
       (FsEvent ''main.go'' 2 # []) = Some s1"
    and r2: "run (example_cfg\<lparr>delay := 200 * Millisecond\<rparr>) s1
       (DispSleep #
        [Tick (10 * Millisecond), FsEvent ''main.go'' 2, Tick (140 * Millisecond),
         FsEvent ''main.go'' 2, Tick (50 * Millisecond)]) = Some s2"
    and n: "now s1 = 0" "now s2 = 200 * Millisecond"
    and f: "step (example_cfg\<lparr>delay := 200 * Millisecond\<rparr>) s2 DispFire = Some s'"
    by blast
  have a: "disp (init\<lparr>disp := DispWaiting\<rparr>) = DispWaiting"
    "process (example_cfg\<lparr>delay := 200 * Millisecond\<rparr>) = Some 4242"
    by (simp_all add: example_cfg_def)
  have b: "DispSleep \<notin> set []"
    "DispFire \<notin> set [Tick (10 * Millisecond), FsEvent ''main.go'' 2, Tick (140 * Millisecond),
         FsEvent ''main.go'' 2, Tick (50 * Millisecond)]"
    by simp_all
  have d: "debounce_signals (init\<lparr>disp := DispWaiting\<rparr>) = []"
    "sig (example_cfg\<lparr>delay := 200 * Millisecond\<rparr>) = SIGHUP"
    "delay (example_cfg\<lparr>delay := 200 * Millisecond\<rparr>) = 200 * Millisecond"
    by (simp_all add: init_def debounce_signals_def example_cfg_def)
  from trailing_fixed_delay [OF a(1) a(2) r1 b(1) r2 b(2)] f
  have "disp s2 = DispSleeping (now s1 + delay (example_cfg\<lparr>delay := 200 * Millisecond\<rparr>))"
    and "debounce_signals s' = debounce_signals (init\<lparr>disp := DispWaiting\<rparr>) @
        [(now s2, sig (example_cfg\<lparr>delay := 200 * Millisecond\<rparr>))]"
    by blast+
  with r1 r2 n f d show ?thesis
    by auto
qed

subsection \<open>Startup failures\<close>

lemma signalByName_error:
  "isl (signalByName ToUpper name) \<longleftrightarrow> ToUpper name \<notin> fst ` set signals"
  by (simp add: signalByName_def map_of_eq_None_iff [symmetric] split: option.splits)

lemma signalByName_message:
  "isl (signalByName ToUpper name) \<Longrightarrow>
   signalByName ToUpper name = Inl (''unknown signal: '' @ name)"
  by (simp add: signalByName_def split: option.splits)

lemma add_watches_None:
  "add_watches add fs = None \<longleftrightarrow> \<not> list_ex (\<lambda>f. add f \<noteq> None) fs"
  by (induction fs) (auto split: option.splits)

lemma add_watches_first_error:
  "\<forall>g\<in>set pre. add g = None \<Longrightarrow> add f = Some err \<Longrightarrow>
   add_watches add (pre @ f # post) = Some err"
  by (induction pre) auto

lemma add_watches_all_ok:
  "\<forall>g\<in>set fs. add g = None \<Longrightarrow> add_watches add fs = None"
  by (induction fs) auto

lemma startup_fails_iff:
  "startup_fails ToUpper fl env \<longleftrightarrow>
    (isl (signalByName ToUpper (sigFlag fl)) \<or> NewWatcher env \<noteq> None \<or> filesFlag fl = [] \<or>
     Args fl = [] \<or>
     add_watches (watcher_Add env) (Split (filesFlag fl) CHR '':'') \<noteq> None \<or>
     cmd_Start env \<noteq> None)"
  unfolding startup_fails_def add_watches_None by blast

text \<open>
  C9, as amended. The claim as stated fails in its words on \<^verbatim>\<open>signalByName\<close>: the look-up
  is of the upper-cased name, so a name that is not a key of the table can be found
  (the counterexample below). What holds, for every function in the place of
  \<^verbatim>\<open>strings.ToUpper\<close>: \<^verbatim>\<open>signalByName\<close> returns an error exactly when the upper-cased name
  is not a key of the table; \<^verbatim>\<open>usageAndExit\<close> prints its argument after \<^verbatim>\<open>!!\<close>, then the
  usage text, an empty line and the version line, and exits with status 1; on every
  startup failure \<^verbatim>\<open>main\<close> ends in \<^verbatim>\<open>usageAndExit\<close>, before the child and any goroutine is
  started, and with no failure the child is started with the signal found. The problem
  printed is that of the first check that fails, in the source's order: the unknown
  name, the error of \<^verbatim>\<open>NewWatcher\<close>, no files, no command, the error of the first path
  that cannot be added, the error of \<^verbatim>\<open>cmd.Start\<close>.
\<close>

theorem startup_failure_exits:
  "(isl (signalByName ToUpper name) \<longleftrightarrow> ToUpper name \<notin> fst ` set signals) \<and>
   usageAndExit msg =
     ([Stdout (''!! '' @ msg), Stderr ''usage: blart [flags] [command]'', PrintDefaults,
       Stdout [], VersionLine], 1) \<and>
   (startup_fails ToUpper fl env \<longrightarrow>
      (\<exists>m. main_startup ToUpper fl env = Inl (usageAndExit m))) \<and>
   (\<not> startup_fails ToUpper fl env \<longrightarrow>
      (\<exists>sg. signalByName ToUpper (sigFlag fl) = Inr sg \<and>
         main_startup ToUpper fl env =
           Inr \<lparr>st_sig = sg, st_delay = delayFlag fl,
                st_out = [Stdout (''==> starting child '' @ Join (Args fl) '' '')]\<rparr>)) \<and>
   (isl (signalByName ToUpper (sigFlag fl)) \<longrightarrow>
      main_startup ToUpper fl env = Inl (usageAndExit (''unknown signal: '' @ sigFlag fl))) \<and>
   (\<not> isl (signalByName ToUpper (sigFlag fl)) \<and> NewWatcher env = Some err1 \<longrightarrow>
      main_startup ToUpper fl env = Inl (usageAndExit err1)) \<and>
   (\<not> isl (signalByName ToUpper (sigFlag fl)) \<and> NewWatcher env = None \<and>
    filesFlag fl = [] \<longrightarrow>
      main_startup ToUpper fl env = Inl (usageAndExit ''no files to watch'')) \<and>
   (\<not> isl (signalByName ToUpper (sigFlag fl)) \<and> NewWatcher env = None \<and>
    filesFlag fl \<noteq> [] \<and> Args fl = [] \<longrightarrow>
      main_startup ToUpper fl env = Inl (usageAndExit ''no command specified'')) \<and>
   (\<not> isl (signalByName ToUpper (sigFlag fl)) \<and> NewWatcher env = None \<and>
    filesFlag fl \<noteq> [] \<and> Args fl \<noteq> [] \<and>
    Split (filesFlag fl) CHR '':'' = pre @ f # post \<and>
    (\<forall>g\<in>set pre. watcher_Add env g = None) \<and> watcher_Add env f = Some err2 \<longrightarrow>
      main_startup ToUpper fl env = Inl (usageAndExit err2)) \<and>
   (\<not> isl (signalByName ToUpper (sigFlag fl)) \<and> NewWatcher env = None \<and>
    filesFlag fl \<noteq> [] \<and> Args fl \<noteq> [] \<and>
    (\<forall>g\<in>set (Split (filesFlag fl) CHR '':''). watcher_Add env g = None) \<and>
    cmd_Start env = Some err3 \<longrightarrow>
      main_startup ToUpper fl env = Inl (usageAndExit err3))"
proof (intro conjI impI)
  show "isl (signalByName ToUpper name) \<longleftrightarrow> ToUpper name \<notin> fst ` set signals"
    by (rule signalByName_error)
next
  show "usageAndExit msg =
     ([Stdout (''!! '' @ msg), Stderr ''usage: blart [flags] [command]'', PrintDefaults,
       Stdout [], VersionLine], 1)"
    by (simp add: usageAndExit_def usage_def)
next
  assume "startup_fails ToUpper fl env"
  then show "\<exists>m. main_startup ToUpper fl env = Inl (usageAndExit m)"
    unfolding startup_fails_iff
    by (auto simp: main_startup_def split: sum.splits option.splits)
next
  assume "\<not> startup_fails ToUpper fl env"
  then show "\<exists>sg. signalByName ToUpper (sigFlag fl) = Inr sg \<and>
         main_startup ToUpper fl env =
           Inr \<lparr>st_sig = sg, st_delay = delayFlag fl,
                st_out = [Stdout (''==> starting child '' @ Join (Args fl) '' '')]\<rparr>"
    unfolding startup_fails_iff
    by (auto simp: main_startup_def split: sum.splits option.splits)
next
  assume "isl (signalByName ToUpper (sigFlag fl))"
  then show "main_startup ToUpper fl env =
      Inl (usageAndExit (''unknown signal: '' @ sigFlag fl))"
    by (simp add: main_startup_def signalByName_message)
next
  assume "\<not> isl (signalByName ToUpper (sigFlag fl)) \<and> NewWatcher env = Some err1"
  then show "main_startup ToUpper fl env = Inl (usageAndExit err1)"
    by (auto simp: main_startup_def split: sum.splits)
next
  assume "\<not> isl (signalByName ToUpper (sigFlag fl)) \<and> NewWatcher env = None \<and>
    filesFlag fl = []"
  then show "main_startup ToUpper fl env = Inl (usageAndExit ''no files to watch'')"
    by (auto simp: main_startup_def split: sum.splits)
next
  assume "\<not> isl (signalByName ToUpper (sigFlag fl)) \<and> NewWatcher env = None \<and>
    filesFlag fl \<noteq> [] \<and> Args fl = []"
  then show "main_startup ToUpper fl env = Inl (usageAndExit ''no command specified'')"
    by (auto simp: main_startup_def split: sum.splits)
next
  assume a: "\<not> isl (signalByName ToUpper (sigFlag fl)) \<and> NewWatcher env = None \<and>
    filesFlag fl \<noteq> [] \<and> Args fl \<noteq> [] \<and>
    Split (filesFlag fl) CHR '':'' = pre @ f # post \<and>
    (\<forall>g\<in>set pre. watcher_Add env g = None) \<and> watcher_Add env f = Some err2"
  then have "add_watches (watcher_Add env) (Split (filesFlag fl) CHR '':'') = Some err2"
    by (simp add: add_watches_first_error)
  with a show "main_startup ToUpper fl env = Inl (usageAndExit err2)"
    by (auto simp: main_startup_def split: sum.splits)
next
  assume a: "\<not> isl (signalByName ToUpper (sigFlag fl)) \<and> NewWatcher env = None \<and>
    filesFlag fl \<noteq> [] \<and> Args fl \<noteq> [] \<and>
    (\<forall>g\<in>set (Split (filesFlag fl) CHR '':''). watcher_Add env g = None) \<and>
    cmd_Start env = Some err3"
  then have "add_watches (watcher_Add env) (Split (filesFlag fl) CHR '':'') = None"
    by (simp add: add_watches_all_ok)
  with a show "main_startup ToUpper fl env = Inl (usageAndExit err3)"
    by (auto simp: main_startup_def split: sum.splits)
qed

text \<open>
  The counterexample to C9: \<^verbatim>\<open>hup\<close> is not a key of the table, and \<^verbatim>\<open>signalByName\<close>
  returns no error for it.
\<close>

theorem signal_name_counterexample:
  "signalByName ToUpper_ascii ''hup'' = Inr SIGHUP \<and> ''hup'' \<notin> fst ` set signals"
  by (simp add: signalByName_def signals_def ToUpper_ascii_def)

text \<open>
  The witness: an unknown name; a second path that cannot be added, after a first that
  can and before a third that cannot either; and a startup with \<^verbatim>\<open>-s hup\<close> that succeeds.
\<close>

theorem startup_failure_exits_witness:
  "ToUpper_ascii ''bogus'' \<notin> fst ` set signals \<and>
   isl (signalByName ToUpper_ascii ''bogus'') \<and>
   main_startup ToUpper_ascii
     \<lparr>sigFlag = ''bogus'', filesFlag = ''a:b:c'', delayFlag = 3 * Second,
      Args = [''sleep'', ''10'']\<rparr>
     \<lparr>NewWatcher = None, watcher_Add = (\<lambda>f. None), cmd_Start = None\<rparr> =
     Inl ([Stdout ''!! unknown signal: bogus'', Stderr ''usage: blart [flags] [command]'',
           PrintDefaults, Stdout [], VersionLine], 1) \<and>
   Split ''a:b:c'' CHR '':'' = [''a''] @ ''b'' # [''c''] \<and>
   main_startup ToUpper_ascii
     \<lparr>sigFlag = ''hup'', filesFlag = ''a:b:c'', delayFlag = 3 * Second,
      Args = [''sleep'', ''10'']\<rparr>
     \<lparr>NewWatcher = None,
      watcher_Add = (\<lambda>f. if f = ''a'' then None else Some (''no such file: '' @ f)),
      cmd_Start = None\<rparr> =
     Inl ([Stdout ''!! no such file: b'', Stderr ''usage: blart [flags] [command]'',
           PrintDefaults, Stdout [], VersionLine], 1) \<and>
   main_startup ToUpper_ascii
     \<lparr>sigFlag = ''hup'', filesFlag = ''a:b:c'', delayFlag = 3 * Second,
      Args = [''sleep'', ''10'']\<rparr>
     \<lparr>NewWatcher = None, watcher_Add = (\<lambda>f. None), cmd_Start = None\<rparr> =
     Inr \<lparr>st_sig = SIGHUP, st_delay = 3 * Second,
          st_out = [Stdout ''==> starting child sleep 10'']\<rparr>"
proof -
  let ?bad = "\<lparr>sigFlag = ''bogus'', filesFlag = ''a:b:c'', delayFlag = 3 * Second,
      Args = [''sleep'', ''10'']\<rparr>"
  let ?fl = "\<lparr>sigFlag = ''hup'', filesFlag = ''a:b:c'', delayFlag = 3 * Second,
      Args = [''sleep'', ''10'']\<rparr>"
  let ?ok = "\<lparr>NewWatcher = None, watcher_Add = (\<lambda>f. None), cmd_Start = None\<rparr>"
  let ?nofile = "\<lparr>NewWatcher = None,
      watcher_Add = (\<lambda>f. if f = ''a'' then None else Some (''no such file: '' @ f)),
      cmd_Start = None\<rparr>"
  have u: "ToUpper_ascii ''bogus'' \<notin> fst ` set signals"
    by (simp add: signals_def ToUpper_ascii_def)
  have h: "\<not> isl (signalByName ToUpper_ascii ''hup'')"
    "signalByName ToUpper_ascii ''hup'' = Inr SIGHUP"
    by (simp_all add: signalByName_def signals_def ToUpper_ascii_def)
  have sp: "Split ''a:b:c'' CHR '':'' = [''a''] @ ''b'' # [''c'']"
    by simp
  have nf: "\<not> startup_fails ToUpper_ascii ?fl ?ok"
    using h(1) by (simp add: startup_fails_def)
  note th1 = startup_failure_exits [of ToUpper_ascii "''bogus''" _ ?bad ?ok]
  note th2 = startup_failure_exits [of ToUpper_ascii "''hup''" _ ?fl ?nofile _ "[''a'']" "''b''"
      "[''c'']" "''no such file: b''"]
  note th3 = startup_failure_exits [of ToUpper_ascii "''hup''" _ ?fl ?ok]
  from th1 u have b: "isl (signalByName ToUpper_ascii ''bogus'')"
    and "main_startup ToUpper_ascii ?bad ?ok =
      Inl (usageAndExit (''unknown signal: '' @ ''bogus''))"
    by simp_all
  moreover from th2 h(1) sp have "main_startup ToUpper_ascii ?fl ?nofile =
      Inl (usageAndExit ''no such file: b'')"
    by simp
  moreover from th3 nf h(2) have "main_startup ToUpper_ascii ?fl ?ok =
      Inr \<lparr>st_sig = SIGHUP, st_delay = 3 * Second,
          st_out = [Stdout (''==> starting child '' @ Join [''sleep'', ''10''] '' '')]\<rparr>"
    by auto
  ultimately show ?thesis
    using u sp by (simp add: usageAndExit_def usage_def)
qed

end
